theory Spec2Isabelle
  imports Main "HOL-Library.Sublist" "HOL-Library.Word"
begin

section \<open>JavaScript values\<close>

text \<open>
  A string of the script is a sequence of UTF-16 code units. \<open>lit\<close> is a string literal
  of the source, all of whose characters are ASCII, as such a sequence.
\<close>

type_synonym js_string = "16 word list"

definition lit :: "string \<Rightarrow> js_string" where
  "lit s = map of_char s"

text \<open>
  The data of \<^verbatim>\<open>src/sync.js\<close> is parsed JSON: the body of the export endpoint's answer and
  the objects built from it. \<open>JUndefined\<close> is what reading a missing property gives.
  The script does two things with a number: it tests it, and it prints it with
  \<^verbatim>\<open>String\<close>. A number is therefore held as what \<^verbatim>\<open>String\<close> prints for it (\<^verbatim>\<open>"0"\<close> for both
  zeros, \<^verbatim>\<open>"1e+21"\<close>, \<^verbatim>\<open>"0.5"\<close>), which tells two numbers of a JSON text apart and needs no
  floating point. An object is the list of its key/value pairs, every key once; the keys
  the script reads are ASCII names, written as they are in the source, and a key it never
  reads makes no difference to it.
\<close>

datatype jsval =
    JUndefined
  | JNull
  | JBool bool
  | JNum js_string
  | JStr js_string
  | JArr "jsval list"
  | JObj "(string \<times> jsval) list"

text \<open>
  What can go wrong: a \<^verbatim>\<open>TypeError\<close> raised by the script itself (a property read on
  \<^verbatim>\<open>null\<close>, a call of something that is no function, a loop over something that is not
  iterable), and a rejected request to the source (\<open>NetworkError\<close>) or to the destination
  (\<open>ApiError\<close>). Nothing in the script catches any of them.
\<close>

datatype js_error = TypeError | NetworkError | ApiError

text \<open>
  \<^verbatim>\<open>Boolean(v)\<close>, the test behind \<^verbatim>\<open>||\<close>, \<^verbatim>\<open>!\<close>, \<^verbatim>\<open>? :\<close> and \<^verbatim>\<open>if\<close>. The falsy numbers of a
  JSON text are the two zeros.
\<close>

fun truthy :: "jsval \<Rightarrow> bool" where
  "truthy JUndefined = False"
| "truthy JNull = False"
| "truthy (JBool b) = b"
| "truthy (JNum n) = (n \<noteq> lit ''0'')"
| "truthy (JStr s) = (s \<noteq> [])"
| "truthy (JArr xs) = True"
| "truthy (JObj kvs) = True"

fun nullish :: "jsval \<Rightarrow> bool" where
  "nullish JUndefined = True"
| "nullish JNull = True"
| "nullish v = False"

text \<open>\<^verbatim>\<open>a || b\<close> and \<^verbatim>\<open>a ?? b\<close>.\<close>

definition js_or :: "jsval \<Rightarrow> jsval \<Rightarrow> jsval" where
  "js_or a b = (if truthy a then a else b)"

definition js_coalesce :: "jsval \<Rightarrow> jsval \<Rightarrow> jsval" where
  "js_coalesce a b = (if nullish a then b else a)"

text \<open>
  \<^verbatim>\<open>v.k\<close> raises on \<^verbatim>\<open>undefined\<close> and \<^verbatim>\<open>null\<close>; on an object it is the value stored under
  the key, or \<^verbatim>\<open>undefined\<close>; on a boolean, number, string or array it is \<^verbatim>\<open>undefined\<close> for
  every key the script reads (none of them is a property of those prototypes).
  \<^verbatim>\<open>v?.k\<close> is \<^verbatim>\<open>undefined\<close> where \<^verbatim>\<open>v.k\<close> raises.
\<close>

fun get_prop :: "jsval \<Rightarrow> string \<Rightarrow> js_error + jsval" where
  "get_prop JUndefined k = Inl TypeError"
| "get_prop JNull k = Inl TypeError"
| "get_prop (JObj kvs) k = Inr (case map_of kvs k of None \<Rightarrow> JUndefined | Some v \<Rightarrow> v)"
| "get_prop v k = Inr JUndefined"

definition opt_prop :: "jsval \<Rightarrow> string \<Rightarrow> jsval" where
  "opt_prop v k = (case get_prop v k of Inl e \<Rightarrow> JUndefined | Inr x \<Rightarrow> x)"

text \<open>
  \<^verbatim>\<open>for (const x of v)\<close>: the elements of an array, the code points of a string (a high
  surrogate and the low surrogate after it are one code point, any other code unit is one
  by itself), and a \<^verbatim>\<open>TypeError\<close> for anything else.
\<close>

definition high_surrogate :: "16 word \<Rightarrow> bool" where
  "high_surrogate c = (0xD800 \<le> c \<and> c \<le> 0xDBFF)"

definition low_surrogate :: "16 word \<Rightarrow> bool" where
  "low_surrogate c = (0xDC00 \<le> c \<and> c \<le> 0xDFFF)"

fun code_points :: "js_string \<Rightarrow> js_string list" where
  "code_points [] = []"
| "code_points [c] = [[c]]"
| "code_points (c # d # cs) =
     (if high_surrogate c \<and> low_surrogate d then [c, d] # code_points cs
      else [c] # code_points (d # cs))"

fun js_iterate :: "jsval \<Rightarrow> js_error + jsval list" where
  "js_iterate (JArr xs) = Inr xs"
| "js_iterate (JStr s) = Inr (map JStr (code_points s))"
| "js_iterate v = Inl TypeError"

text \<open>
  \<^verbatim>\<open>String(v)\<close>. An array prints as its elements joined by commas, \<^verbatim>\<open>null\<close> and
  \<^verbatim>\<open>undefined\<close> among them as nothing.
\<close>

fun join_comma :: "js_string list \<Rightarrow> js_string" where
  "join_comma [] = []"
| "join_comma [s] = s"
| "join_comma (s # t # ss) = s @ lit '','' @ join_comma (t # ss)"

fun js_String :: "jsval \<Rightarrow> js_string" where
  "js_String JUndefined = lit ''undefined''"
| "js_String JNull = lit ''null''"
| "js_String (JBool b) = (if b then lit ''true'' else lit ''false'')"
| "js_String (JNum n) = n"
| "js_String (JStr s) = s"
| "js_String (JArr xs) = join_comma (map (\<lambda>x. if nullish x then [] else js_String x) xs)"
| "js_String (JObj kvs) = lit ''[object Object]''"

section \<open>The normalizer\<close>

text \<open>
  \<^verbatim>\<open>meta\<close>, the four fields every highlight of a book inherits, and the object
  \<^verbatim>\<open>normalizeHighlights\<close> pushes for one highlight. \<open>id_h\<close>, \<open>text_h\<close> and \<open>note_h\<close> are
  the script's \<^verbatim>\<open>id\<close>, \<^verbatim>\<open>text\<close> and \<^verbatim>\<open>note\<close>. \<^verbatim>\<open>id\<close> is always a string and \<^verbatim>\<open>tags\<close> always an
  array of strings; every other field is whatever value the export held.
\<close>

record book_meta =
  book_title :: jsval
  book_author :: jsval
  source_url :: jsval
  category :: jsval

record normalized = book_meta +
  id_h :: js_string
  text_h :: jsval
  note_h :: jsval
  location :: jsval
  highlighted_at :: jsval
  url :: jsval
  tags :: "js_string list"

definition meta_of :: "jsval \<Rightarrow> book_meta" where
  "meta_of book =
     \<lparr> book_title = js_or (opt_prop book ''title'') (JStr []),
       book_author = js_or (opt_prop book ''author'') (JStr []),
       source_url = js_or (opt_prop book ''source_url'') (JStr []),
       category = js_or (opt_prop book ''category'') (JStr []) \<rparr>"

text \<open>
  The callback of \<^verbatim>\<open>rawTags.map\<close>: a string stands for itself, anything else for its
  \<^verbatim>\<open>name\<close> when that is a string, and for \<^verbatim>\<open>''\<close> otherwise.
\<close>

fun tag_name :: "jsval \<Rightarrow> js_string" where
  "tag_name (JStr s) = s"
| "tag_name t = (case opt_prop t ''name'' of JStr n \<Rightarrow> n | _ \<Rightarrow> [])"

text \<open>
  The body of the inner loop. \<^verbatim>\<open>h.tags\<close> is the first property read of \<^verbatim>\<open>h\<close> and raises
  when \<^verbatim>\<open>h\<close> is \<^verbatim>\<open>null\<close> or \<^verbatim>\<open>undefined\<close>; once it has not, no later read of \<^verbatim>\<open>h\<close> can.
\<close>

definition normalize_highlight :: "book_meta \<Rightarrow> jsval \<Rightarrow> js_error + normalized" where
  "normalize_highlight m h =
     (case get_prop h ''tags'' of
        Inl e \<Rightarrow> Inl e
      | Inr ht \<Rightarrow>
          let rawTags = (case ht of JArr ts \<Rightarrow> ts | _ \<Rightarrow> []);
              tgs = filter (\<lambda>s. s \<noteq> []) (map tag_name rawTags)
          in Inr \<lparr> book_title = book_title m,
                   book_author = book_author m,
                   source_url = source_url m,
                   category = category m,
                   id_h = js_String (opt_prop h ''id''),
                   text_h = js_or (opt_prop h ''text'') (JStr []),
                   note_h = js_or (opt_prop h ''note'') (JStr []),
                   location = js_coalesce (opt_prop h ''location'') JNull,
                   highlighted_at =
                     js_or (opt_prop h ''highlighted_at'') (js_or (opt_prop h ''created_at'') JNull),
                   url = js_or (opt_prop h ''url'') (js_or (source_url m) (JStr [])),
                   tags = tgs \<rparr>)"

text \<open>The inner and the outer loop; \<open>acc\<close> is the array \<^verbatim>\<open>highlights\<close> being filled.\<close>

fun push_highlights :: "book_meta \<Rightarrow> jsval list \<Rightarrow> normalized list \<Rightarrow> js_error + normalized list" where
  "push_highlights m [] acc = Inr acc"
| "push_highlights m (h # hs) acc =
     (case normalize_highlight m h of
        Inl e \<Rightarrow> Inl e
      | Inr r \<Rightarrow> push_highlights m hs (acc @ [r]))"

fun normalize_books :: "jsval list \<Rightarrow> normalized list \<Rightarrow> js_error + normalized list" where
  "normalize_books [] acc = Inr acc"
| "normalize_books (book # books) acc =
     (case js_iterate (js_or (opt_prop book ''highlights'') (JArr [])) of
        Inl e \<Rightarrow> Inl e
      | Inr hs \<Rightarrow>
          (case push_highlights (meta_of book) hs acc of
             Inl e \<Rightarrow> Inl e
           | Inr acc' \<Rightarrow> normalize_books books acc'))"

definition normalizeHighlights :: "jsval \<Rightarrow> js_error + normalized list" where
  "normalizeHighlights results =
     (case js_iterate (js_or results (JArr [])) of
        Inl e \<Rightarrow> Inl e
      | Inr books \<Rightarrow> normalize_books books [])"

section \<open>The destination's client\<close>

text \<open>
  The properties of a page of the destination table, as the script writes them and reads
  them back. \<open>None\<close> is \<^verbatim>\<open>undefined\<close>: a property the request leaves out (the client
  serialises the request as JSON, which drops a key whose value is \<^verbatim>\<open>undefined\<close>), or one
  the answer does not carry. \<open>Title\<close> is the content of the title's one text item,
  \<open>Source\<close>, \<open>Book\<close> and \<open>Author\<close> the content of the rich text's one item, \<open>Tags\<close> the
  names of the multi-select's options in their order (\<^verbatim>\<open>toMultiSelect\<close> wraps each name in
  an option object, and reading the tags back takes the \<^verbatim>\<open>name\<close> of each option).
\<close>

record properties =
  Title :: "js_string option"
  URL :: "js_string option"
  Source :: "jsval option"
  Book :: "jsval option"
  Author :: "jsval option"
  Tags :: "js_string list option"

text \<open>
  A page of a query's answer. A partial page object has an id and no properties, whence
  the \<^verbatim>\<open>?.\<close> of the script.
\<close>

record page_object =
  page_id :: js_string
  page_properties :: "properties option"

text \<open>
  The three requests the script sends to the destination. The query is always the one of
  \<^verbatim>\<open>findPageByUrl\<close>: the configured table, page size 1, the filter "URL equals"; the url
  is all that varies.
\<close>

datatype api_call =
    DatabasesQuery js_string
  | PagesUpdate js_string properties
  | PagesCreate properties

text \<open>
  The client \<^verbatim>\<open>notion\<close>, seen from one call of \<^verbatim>\<open>upsertUrlWithTags\<close>: what each request
  would be answered. \<open>Inl\<close> is a rejected request. A query's answer is its \<^verbatim>\<open>results\<close>
  (\<open>None\<close> when the answer has none); a creation's answer is any value.
\<close>

record notion =
  databases_query :: "js_string \<Rightarrow> js_error + page_object list option"
  pages_update :: "js_string \<Rightarrow> properties \<Rightarrow> js_error + unit"
  pages_create :: "properties \<Rightarrow> js_error + jsval"

text \<open>\<^verbatim>\<open>resp.results?.[0] || null\<close>; a page object is truthy.\<close>

definition findPageByUrl :: "notion \<Rightarrow> js_string \<Rightarrow> js_error + page_object option" where
  "findPageByUrl n u =
     (case databases_query n u of
        Inl e \<Rightarrow> Inl e
      | Inr results \<Rightarrow>
          Inr (case results of None \<Rightarrow> None | Some [] \<Rightarrow> None | Some (p # ps) \<Rightarrow> Some p))"

section \<open>The upserter\<close>

text \<open>
  \<^verbatim>\<open>String.prototype.trim\<close> removes, at both ends, the white space and the line terminators
  of the language: tab, line feed, vertical tab, form feed, carriage return, space,
  no-break space, the other space separators of Unicode (U+1680, U+2000 to U+200A, U+202F,
  U+205F, U+3000), the line and paragraph separators U+2028 and U+2029, and the byte
  order mark U+FEFF. All of them are single code units.
\<close>

definition js_whitespace :: "16 word \<Rightarrow> bool" where
  "js_whitespace c =
     (c = 0x0009 \<or> c = 0x000A \<or> c = 0x000B \<or> c = 0x000C \<or> c = 0x000D \<or> c = 0x0020 \<or>
      c = 0x00A0 \<or> c = 0x1680 \<or> (0x2000 \<le> c \<and> c \<le> 0x200A) \<or> c = 0x2028 \<or> c = 0x2029 \<or>
      c = 0x202F \<or> c = 0x205F \<or> c = 0x3000 \<or> c = 0xFEFF)"

definition trim :: "js_string \<Rightarrow> js_string" where
  "trim s = rev (dropWhile js_whitespace (rev (dropWhile js_whitespace s)))"

text \<open>
  \<^verbatim>\<open>v.trim()\<close>: only a string has the method. \<^verbatim>\<open>v?.trim()\<close> is \<^verbatim>\<open>undefined\<close> for
  \<^verbatim>\<open>undefined\<close> and \<^verbatim>\<open>null\<close> and the same call otherwise.
\<close>

fun call_trim :: "jsval \<Rightarrow> js_error + js_string" where
  "call_trim (JStr s) = Inr (trim s)"
| "call_trim v = Inl TypeError"

definition opt_call_trim :: "jsval \<Rightarrow> js_error + jsval" where
  "opt_call_trim v =
     (if nullish v then Inr JUndefined
      else case call_trim v of Inl e \<Rightarrow> Inl e | Inr s \<Rightarrow> Inr (JStr s))"

text \<open>\<^verbatim>\<open>h.book_title?.trim() || url\<close>.\<close>

definition titleText :: "jsval \<Rightarrow> js_string \<Rightarrow> js_error + js_string" where
  "titleText bt u =
     (case opt_call_trim bt of
        Inl e \<Rightarrow> Inl e
      | Inr t \<Rightarrow> Inr (case js_or t (JStr u) of JStr s \<Rightarrow> s | _ \<Rightarrow> u))"

text \<open>\<^verbatim>\<open>x ? { rich_text: [...content: x...] } : undefined\<close>.\<close>

definition rich_text_if :: "jsval \<Rightarrow> jsval option" where
  "rich_text_if x = (if truthy x then Some x else None)"

definition baseProperties :: "normalized \<Rightarrow> js_string \<Rightarrow> js_string \<Rightarrow> properties" where
  "baseProperties h u t =
     \<lparr> Title = Some t,
       URL = Some u,
       Source = rich_text_if (category h),
       Book = rich_text_if (book_title h),
       Author = rich_text_if (book_author h),
       Tags = None \<rparr>"

text \<open>
  \<^verbatim>\<open>Array.from(new Set(xs))\<close>: a set keeps its members in the order they were first added,
  and adding a member twice changes nothing.
\<close>

definition set_add :: "'a list \<Rightarrow> 'a \<Rightarrow> 'a list" where
  "set_add s x = (if x \<in> set s then s else s @ [x])"

definition js_Set :: "'a list \<Rightarrow> 'a list" where
  "js_Set xs = foldl set_add [] xs"

text \<open>
  \<^verbatim>\<open>existing.properties?.Tags?.multi_select?.map((t) => t.name) || []\<close>.
\<close>

definition existingTags :: "page_object \<Rightarrow> js_string list" where
  "existingTags p =
     (case page_properties p of
        None \<Rightarrow> []
      | Some ps \<Rightarrow> (case Tags ps of None \<Rightarrow> [] | Some ts \<Rightarrow> ts))"

text \<open>
  \<^verbatim>\<open>merged.length !== existingTags.length || merged.some((t, i) => t !== existingTags[i])\<close>.
  An index past the end of \<^verbatim>\<open>existingTags\<close> reads \<^verbatim>\<open>undefined\<close>, which no tag equals.
\<close>

definition js_index :: "'a list \<Rightarrow> nat \<Rightarrow> 'a option" where
  "js_index xs i = (if i < length xs then Some (xs ! i) else None)"

definition needUpdate :: "js_string list \<Rightarrow> js_string list \<Rightarrow> bool" where
  "needUpdate merged ex =
     (length merged \<noteq> length ex \<or>
      list_ex (\<lambda>(i, t). Some t \<noteq> js_index ex i) (enumerate 0 merged))"

text \<open>
  \<^verbatim>\<open>upsertUrlWithTags\<close>, returning the requests it sent, in order, beside its result.
  \<^verbatim>\<open>Array.isArray(h.tags)\<close> holds of every record of the normalizer, and a falsy string
  is the empty one. The properties are built after the query and before the branch, so a
  title that is no string raises once the query has been sent.
\<close>

definition upsertUrlWithTags :: "notion \<Rightarrow> normalized \<Rightarrow> api_call list \<times> (js_error + bool)" where
  "upsertUrlWithTags n h =
     (case call_trim (js_or (url h) (JStr [])) of
        Inl e \<Rightarrow> ([], Inl e)
      | Inr u \<Rightarrow>
          if u = [] then ([], Inr False)
          else
            let tgs = filter (\<lambda>t. t \<noteq> []) (tags h) in
            if tgs = [] then ([], Inr False)
            else
              (case findPageByUrl n u of
                 Inl e \<Rightarrow> ([DatabasesQuery u], Inl e)
               | Inr existing \<Rightarrow>
                   (case titleText (book_title h) u of
                      Inl e \<Rightarrow> ([DatabasesQuery u], Inl e)
                    | Inr t \<Rightarrow>
                        let base = baseProperties h u t in
                        (case existing of
                           Some p \<Rightarrow>
                             let merged = js_Set (existingTags p @ tgs) in
                             if needUpdate merged (existingTags p) then
                               let req = base\<lparr>Tags := Some merged\<rparr> in
                               (case pages_update n (page_id p) req of
                                  Inl e \<Rightarrow> ([DatabasesQuery u, PagesUpdate (page_id p) req], Inl e)
                                | Inr ok \<Rightarrow>
                                    ([DatabasesQuery u, PagesUpdate (page_id p) req], Inr False))
                             else ([DatabasesQuery u], Inr False)
                         | None \<Rightarrow>
                             let req = base\<lparr>Tags := Some tgs\<rparr> in
                             (case pages_create n req of
                                Inl e \<Rightarrow> ([DatabasesQuery u, PagesCreate req], Inl e)
                              | Inr resp \<Rightarrow>
                                  ([DatabasesQuery u, PagesCreate req],
                                   Inr (truthy (opt_prop resp ''id''))))))))"

section \<open>The paginator and the orchestrator\<close>

text \<open>
  \<^verbatim>\<open>fetchReadwisePage\<close>: \<open>get\<close> is \<^verbatim>\<open>axios.get\<close> on the export endpoint, from the query
  parameters (\<open>None\<close>: no \<^verbatim>\<open>pageCursor\<close> among them) to the answer's \<^verbatim>\<open>data\<close>, or to a
  rejection. The parameters are returned beside the answer.
\<close>

definition fetchReadwisePage ::
  "(jsval option \<Rightarrow> js_error + jsval) \<Rightarrow> jsval \<Rightarrow> jsval option \<times> (js_error + jsval)" where
  "fetchReadwisePage get pageCursor =
     (let params = (if truthy pageCursor then Some pageCursor else None)
      in (params, get params))"

text \<open>
  The variables of \<^verbatim>\<open>main\<close>, with what the run has sent so far: \<open>fetches\<close> holds the
  parameters of every request to the source, \<open>requests\<close> every request to the destination,
  \<open>upserts\<close> counts the calls of \<^verbatim>\<open>upsertUrlWithTags\<close>.
\<close>

record run =
  cursor :: jsval
  totalFetched :: nat
  totalCreated :: nat
  fetches :: "jsval option list"
  requests :: "api_call list"
  upserts :: nat

text \<open>How one turn of \<^verbatim>\<open>while (true)\<close> ends.\<close>

datatype flow = Continue | Break | Throw js_error

text \<open>
  The world of a run: \<open>src k\<close> answers the \<open>k\<close>-th request to the source, \<open>dest k\<close> is the
  destination as the \<open>k\<close>-th call of \<^verbatim>\<open>upsertUrlWithTags\<close> finds it. The pause after each
  highlight changes nothing that is modelled.
\<close>

fun upsert_each :: "(nat \<Rightarrow> notion) \<Rightarrow> normalized list \<Rightarrow> run \<Rightarrow> run \<times> js_error option" where
  "upsert_each dest [] st = (st, None)"
| "upsert_each dest (h # hs) st =
     (case upsertUrlWithTags (dest (upserts st)) h of
        (calls, res) \<Rightarrow>
          let st' = st\<lparr>requests := requests st @ calls, upserts := Suc (upserts st)\<rparr> in
          (case res of
             Inl e \<Rightarrow> (st', Some e)
           | Inr created \<Rightarrow>
               upsert_each dest hs
                 (if created then st'\<lparr>totalCreated := totalCreated st' + 1\<rparr> else st')))"

definition main_iteration ::
  "(nat \<Rightarrow> jsval option \<Rightarrow> js_error + jsval) \<Rightarrow> (nat \<Rightarrow> notion) \<Rightarrow> run \<Rightarrow> run \<times> flow" where
  "main_iteration src dest st =
     (case fetchReadwisePage (src (length (fetches st))) (cursor st) of
        (params, answer) \<Rightarrow>
          let st1 = st\<lparr>fetches := fetches st @ [params]\<rparr> in
          (case answer of
             Inl e \<Rightarrow> (st1, Throw e)
           | Inr page \<Rightarrow>
               (case get_prop page ''results'' of
                  Inl e \<Rightarrow> (st1, Throw e)
                | Inr results \<Rightarrow>
                    (case normalizeHighlights results of
                       Inl e \<Rightarrow> (st1, Throw e)
                     | Inr hs \<Rightarrow>
                         (case upsert_each dest hs
                                 (st1\<lparr>totalFetched := totalFetched st1 + length hs\<rparr>) of
                            (st2, Some e) \<Rightarrow> (st2, Throw e)
                          | (st2, None) \<Rightarrow>
                              if \<not> truthy (opt_prop page ''nextPageCursor'') then (st2, Break)
                              else (st2\<lparr>cursor := opt_prop page ''nextPageCursor''\<rparr>, Continue))))))"

text \<open>
  The loop of \<^verbatim>\<open>main\<close>. It need not end; \<open>None\<close> is a run that goes on for ever, \<open>Some\<close>
  the state the run ends in, with \<open>Break\<close> after the last page or the error that stopped it.
\<close>

partial_function (option) main_loop ::
  "(nat \<Rightarrow> jsval option \<Rightarrow> js_error + jsval) \<Rightarrow> (nat \<Rightarrow> notion) \<Rightarrow> run \<Rightarrow> (run \<times> flow) option" where
  "main_loop src dest st =
     (let r = main_iteration src dest st
      in if snd r = Continue then main_loop src dest (fst r) else Some r)"

definition main ::
  "(nat \<Rightarrow> jsval option \<Rightarrow> js_error + jsval) \<Rightarrow> (nat \<Rightarrow> notion) \<Rightarrow> (run \<times> flow) option" where
  "main src dest =
     main_loop src dest
       \<lparr> cursor = JNull, totalFetched = 0, totalCreated = 0,
         fetches = [], requests = [], upserts = 0 \<rparr>"

section \<open>Notions of the specification\<close>

subsection \<open>Tag sets\<close>

text \<open>
  A list with every member once, each at the place of its first occurrence: the union
  "preserving first-seen order" of the specification.
\<close>

fun first_seen :: "'a list \<Rightarrow> 'a list" where
  "first_seen [] = []"
| "first_seen (x # xs) = x # first_seen (filter (\<lambda>y. y \<noteq> x) xs)"

text \<open>Two lists differ in length or in some position.\<close>

definition differs :: "'a list \<Rightarrow> 'a list \<Rightarrow> bool" where
  "differs merged ex =
     (length merged \<noteq> length ex \<or>
      (\<exists>i < length merged. i < length ex \<and> merged ! i \<noteq> ex ! i))"

subsection \<open>Raw export data\<close>








subsection \<open>The scenarios of the specification\<close>

text \<open>
  One page of the export: the book "Book A" with the highlight 1 of \<^verbatim>\<open>https://x.com\<close>,
  tagged \<^verbatim>\<open>t1\<close>; the record the normalizer makes of it; the same record tagged \<^verbatim>\<open>t1\<close> and
  \<^verbatim>\<open>t2\<close>; the destination's page of that url, tagged \<^verbatim>\<open>t1\<close>, and the same page tagged
  \<^verbatim>\<open>t0\<close> and \<^verbatim>\<open>t1\<close>; and a destination that
  answers every query with the given pages, accepts every update and answers every
  creation with the id \<^verbatim>\<open>p2\<close>.
\<close>

definition book_A :: jsval where
  "book_A =
     JObj [(''title'', JStr (lit ''Book A'')),
           (''highlights'',
            JArr [JObj [(''id'', JStr (lit ''1'')), (''url'', JStr (lit ''https://x.com'')),
                        (''tags'', JArr [JStr (lit ''t1'')])]])]"

definition highlight_t1 :: normalized where
  "highlight_t1 =
     \<lparr> book_title = JStr (lit ''Book A''), book_author = JStr [], source_url = JStr [],
       category = JStr [], id_h = lit ''1'', text_h = JStr [], note_h = JStr [],
       location = JNull, highlighted_at = JNull, url = JStr (lit ''https://x.com''),
       tags = [lit ''t1''] \<rparr>"

definition highlight_t1_t2 :: normalized where
  "highlight_t1_t2 = highlight_t1\<lparr>tags := [lit ''t1'', lit ''t2'']\<rparr>"

definition page_t1 :: page_object where
  "page_t1 =
     \<lparr> page_id = lit ''p1'',
       page_properties =
         Some \<lparr> Title = Some (lit ''Book A''), URL = Some (lit ''https://x.com''), Source = None,
                Book = Some (JStr (lit ''Book A'')), Author = None, Tags = Some [lit ''t1''] \<rparr> \<rparr>"

definition page_t0_t1 :: page_object where
  "page_t0_t1 =
     \<lparr> page_id = lit ''p1'',
       page_properties =
         Some \<lparr> Title = Some (lit ''Book A''), URL = Some (lit ''https://x.com''), Source = None,
                Book = Some (JStr (lit ''Book A'')), Author = None,
                Tags = Some [lit ''t0'', lit ''t1''] \<rparr> \<rparr>"

definition answering :: "page_object list \<Rightarrow> notion" where
  "answering pages =
     \<lparr> databases_query = (\<lambda>u. Inr (Some pages)),
       pages_update = (\<lambda>i req. Inr ()),
       pages_create = (\<lambda>req. Inr (JObj [(''id'', JStr (lit ''p2''))])) \<rparr>"

subsection \<open>The chain of pages\<close>

text \<open>
  The cursors a run would carry if nothing stopped it: \<^verbatim>\<open>null\<close> at first, then the
  \<^verbatim>\<open>nextPageCursor\<close> of the page each request is answered with (and \<^verbatim>\<open>null\<close> after a
  rejected request, where the run stops anyway).
\<close>

primrec cursor_at :: "(nat \<Rightarrow> jsval option \<Rightarrow> js_error + jsval) \<Rightarrow> nat \<Rightarrow> jsval" where
  "cursor_at src 0 = JNull"
| "cursor_at src (Suc k) =
     (case snd (fetchReadwisePage (src k) (cursor_at src k)) of
        Inl e \<Rightarrow> JNull
      | Inr page \<Rightarrow> opt_prop page ''nextPageCursor'')"

text \<open>The parameters of the \<open>k\<close>-th request of the chain, and its answer.\<close>

definition request_at :: "(nat \<Rightarrow> jsval option \<Rightarrow> js_error + jsval) \<Rightarrow> nat \<Rightarrow> jsval option" where
  "request_at src k = fst (fetchReadwisePage (src k) (cursor_at src k))"

definition page_at :: "(nat \<Rightarrow> jsval option \<Rightarrow> js_error + jsval) \<Rightarrow> nat \<Rightarrow> js_error + jsval" where
  "page_at src k = snd (fetchReadwisePage (src k) (cursor_at src k))"

text \<open>
  An answer is a last page when it is a page whose \<^verbatim>\<open>nextPageCursor\<close> is falsy, and a
  linked page when it is a page whose \<^verbatim>\<open>nextPageCursor\<close> is truthy.
\<close>

fun last_page :: "js_error + jsval \<Rightarrow> bool" where
  "last_page (Inl e) = False"
| "last_page (Inr page) = (\<not> truthy (opt_prop page ''nextPageCursor''))"

fun linked_page :: "js_error + jsval \<Rightarrow> bool" where
  "linked_page (Inl e) = False"
| "linked_page (Inr page) = truthy (opt_prop page ''nextPageCursor'')"

text \<open>
  A run in progress is on the chain when it has sent the first requests of the chain,
  each answered with a linked page, and carries the next cursor of the chain. A finished
  run has followed the chain up to \<open>k\<close> when it has sent some of its first \<open>k + 1\<close>
  requests and no other, all but the last answered with a linked page, and the last with
  a last page if the run ended by leaving the loop.
\<close>

definition on_chain :: "(nat \<Rightarrow> jsval option \<Rightarrow> js_error + jsval) \<Rightarrow> run \<Rightarrow> bool" where
  "on_chain src st =
     (cursor st = cursor_at src (length (fetches st)) \<and>
      fetches st = map (request_at src) [0..<length (fetches st)] \<and>
      (\<forall>j < length (fetches st). linked_page (page_at src j)))"

definition followed_chain ::
  "(nat \<Rightarrow> jsval option \<Rightarrow> js_error + jsval) \<Rightarrow> nat \<Rightarrow> run \<times> flow \<Rightarrow> bool" where
  "followed_chain src k r =
     (snd r \<noteq> Continue \<and>
      fetches (fst r) = map (request_at src) [0..<length (fetches (fst r))] \<and>
      0 < length (fetches (fst r)) \<and> length (fetches (fst r)) \<le> Suc k \<and>
      (\<forall>j. Suc j < length (fetches (fst r)) \<longrightarrow> linked_page (page_at src j)) \<and>
      (snd r = Break \<longrightarrow> last_page (page_at src (length (fetches (fst r)) - 1))))"

subsection \<open>The destination table\<close>

text \<open>
  Modelled from the spec: the destination table, a service the script talks to and no
  code of its own. A record is identified by its id and has the properties Title, URL,
  Source, Book, Author and Tags, the last a set of strings. A query by url is answered
  with one record whose URL is the url (here the first, in an order that writes do not
  change), or with none. An update patches
  the record of the given id: the properties the request carries replace the stored
  ones, the others stay. A creation adds a record with a new id and answers with that id.
  No request is rejected. \<open>keep\<close> is what the table stores of the names written to a
  multi-select property; the property holds a set when that is duplicate-free and has
  the members written.
\<close>

definition holds_set :: "(js_string list \<Rightarrow> js_string list) \<Rightarrow> bool" where
  "holds_set keep = (\<forall>ts. distinct (keep ts) \<and> set (keep ts) = set ts)"

definition page_url :: "page_object \<Rightarrow> js_string option" where
  "page_url p = (case page_properties p of None \<Rightarrow> None | Some ps \<Rightarrow> URL ps)"

text \<open>The new id of a creation: \<^verbatim>\<open>p\<close> and the number of records so far, in decimal.\<close>

definition digit_char :: "nat \<Rightarrow> char" where
  "digit_char d = ''0123456789'' ! d"

fun nat_string :: "nat \<Rightarrow> string" where
  "nat_string n = (if n < 10 then [digit_char n] else nat_string (n div 10) @ [digit_char (n mod 10)])"

declare nat_string.simps [simp del]

definition new_id :: "page_object list \<Rightarrow> js_string" where
  "new_id tbl = lit (CHR ''p'' # nat_string (length tbl))"

text \<open>The table as the client of one call sees it.\<close>

definition table_client :: "page_object list \<Rightarrow> notion" where
  "table_client tbl =
     \<lparr> databases_query =
         (\<lambda>u. Inr (Some (case find (\<lambda>p. page_url p = Some u) tbl of
                            None \<Rightarrow> [] | Some p \<Rightarrow> [p]))),
       pages_update = (\<lambda>i req. Inr ()),
       pages_create = (\<lambda>req. Inr (JObj [(''id'', JStr (new_id tbl))])) \<rparr>"

text \<open>Patching the stored properties with a request, and the table with a request.\<close>

definition no_properties :: properties where
  "no_properties =
     \<lparr> Title = None, URL = None, Source = None, Book = None, Author = None, Tags = None \<rparr>"

definition patch :: "(js_string list \<Rightarrow> js_string list) \<Rightarrow> properties \<Rightarrow> properties \<Rightarrow> properties" where
  "patch keep req old =
     \<lparr> Title = (case Title req of None \<Rightarrow> Title old | Some x \<Rightarrow> Some x),
       URL = (case URL req of None \<Rightarrow> URL old | Some x \<Rightarrow> Some x),
       Source = (case Source req of None \<Rightarrow> Source old | Some x \<Rightarrow> Some x),
       Book = (case Book req of None \<Rightarrow> Book old | Some x \<Rightarrow> Some x),
       Author = (case Author req of None \<Rightarrow> Author old | Some x \<Rightarrow> Some x),
       Tags = (case Tags req of None \<Rightarrow> Tags old | Some ts \<Rightarrow> Some (keep ts)) \<rparr>"

definition patch_page :: "(js_string list \<Rightarrow> js_string list) \<Rightarrow> properties \<Rightarrow> page_object \<Rightarrow> page_object" where
  "patch_page keep req p =
     p\<lparr>page_properties :=
         Some (patch keep req (case page_properties p of None \<Rightarrow> no_properties | Some ps \<Rightarrow> ps))\<rparr>"

fun table_apply :: "(js_string list \<Rightarrow> js_string list) \<Rightarrow> page_object list \<Rightarrow> api_call \<Rightarrow> page_object list" where
  "table_apply keep tbl (DatabasesQuery u) = tbl"
| "table_apply keep tbl (PagesUpdate i req) =
     map (\<lambda>p. if page_id p = i then patch_page keep req p else p) tbl"
| "table_apply keep tbl (PagesCreate req) =
     tbl @ [patch_page keep req \<lparr>page_id = new_id tbl, page_properties = None\<rparr>]"

text \<open>
  One call of \<^verbatim>\<open>upsertUrlWithTags\<close> on the table: the table answers, then takes the writes.
  The result is the table after the call, the requests sent and what the call returned.
\<close>

definition upsert_on ::
  "(js_string list \<Rightarrow> js_string list) \<Rightarrow> page_object list \<Rightarrow> normalized \<Rightarrow>
     page_object list \<times> api_call list \<times> (js_error + bool)" where
  "upsert_on keep tbl h =
     (case upsertUrlWithTags (table_client tbl) h of
        (calls, res) \<Rightarrow> (foldl (table_apply keep) tbl calls, calls, res))"

text \<open>The one request that writes nothing to the table.\<close>

fun is_query :: "api_call \<Rightarrow> bool" where
  "is_query (DatabasesQuery u) = True"
| "is_query c = False"

subsection \<open>Two pages linked by a cursor\<close>

text \<open>
  A source with two pages: the request without a cursor is answered with the first, which
  holds the book "Book A" and the cursor \<^verbatim>\<open>c1\<close>; the request with that cursor is answered
  with the second, which is empty and has no cursor; any other request is rejected.
\<close>

definition first_of_two :: jsval where
  "first_of_two = JObj [(''results'', JArr [book_A]), (''nextPageCursor'', JStr (lit ''c1''))]"

definition second_of_two :: jsval where
  "second_of_two = JObj [(''results'', JArr []), (''nextPageCursor'', JNull)]"

definition two_pages :: "nat \<Rightarrow> jsval option \<Rightarrow> js_error + jsval" where
  "two_pages k q =
     (case q of
        None \<Rightarrow> Inr first_of_two
      | Some c \<Rightarrow> if c = JStr (lit ''c1'') then Inr second_of_two else Inl NetworkError)"

section \<open>String literals\<close>

lemma lit_simps:
  "lit [] = []"
  "lit (c # s) = of_char c # lit s"
  by (simp_all add: lit_def)

lemma of_char_word_eq: "((of_char c :: 16 word) = of_char d) = (c = d)"
proof -
  have lt: "(of_char x :: nat) < 2 ^ 16" for x
  proof -
    have "(of_char x :: nat) mod 256 = of_char x"
      by simp
    then have "(of_char x :: nat) < 256"
      by (metis mod_less_divisor zero_less_numeral)
    also have "(256 :: nat) < 2 ^ 16"
      by simp
    finally show ?thesis .
  qed
  have "((of_nat (of_char c) :: 16 word) = of_nat (of_char d)) = ((of_char c :: nat) = of_char d)"
    using lt [of c] lt [of d] by (simp add: word_of_nat_eq_iff take_bit_nat_eq_self)
  then show ?thesis
    by (simp add: of_nat_of_char)
qed

lemma lit_eq_iff [simp]: "(lit a = lit b) = (a = b)"
proof -
  have "inj (of_char :: char \<Rightarrow> 16 word)"
    by (simp add: inj_def of_char_word_eq)
  then show ?thesis
    by (simp add: lit_def inj_map_eq_map)
qed

lemma lit_eq_Nil [simp]: "(lit a = []) = (a = [])" "([] = lit a) = (a = [])"
  by (auto simp: lit_def)

text \<open>The literals of the scenarios have no white space at their ends.\<close>

lemma trim_scenario:
  "trim (lit ''https://x.com'') = lit ''https://x.com''"
  "trim (lit ''Book A'') = lit ''Book A''"
  "trim (lit ''Book B'') = lit ''Book B''"
  by (simp_all add: trim_def js_whitespace_def lit_simps)

section \<open>Tag sets: the set of the script and the first-seen order\<close>

lemma set_first_seen: "set (first_seen xs) = set xs"
  by (induction xs rule: first_seen.induct) auto

lemma distinct_first_seen: "distinct (first_seen xs)"
  by (induction xs rule: first_seen.induct) (auto simp: set_first_seen)

lemma first_seen_distinct: "distinct xs \<Longrightarrow> first_seen xs = xs"
proof (induction xs)
  case Nil
  show ?case by simp
next
  case (Cons x xs)
  then have "filter (\<lambda>y. y \<noteq> x) xs = xs"
    by (auto simp: filter_id_conv)
  with Cons show ?case by simp
qed

lemma first_seen_filter: "first_seen (filter P xs) = filter P (first_seen xs)"
proof (induction xs rule: first_seen.induct)
  case 1
  show ?case by simp
next
  case (2 x xs)
  have comm: "filter (\<lambda>y. y \<noteq> x) (filter P xs) = filter P (filter (\<lambda>y. y \<noteq> x) xs)"
    by (auto intro: filter_cong)
  show ?case
  proof (cases "P x")
    case True
    with 2 comm show ?thesis by simp
  next
    case False
    then have "filter P xs = filter P (filter (\<lambda>y. y \<noteq> x) xs)"
      by (auto intro: filter_cong)
    with False 2 show ?thesis by simp
  qed
qed

text \<open>Adding the members of \<open>xs\<close> to a set appends those not yet in it, each once.\<close>

lemma foldl_set_add:
  "foldl set_add acc xs = acc @ first_seen (filter (\<lambda>x. x \<notin> set acc) xs)"
proof (induction xs arbitrary: acc)
  case Nil
  show ?case by simp
next
  case (Cons x xs)
  show ?case
  proof (cases "x \<in> set acc")
    case True
    then show ?thesis using Cons.IH [of acc] by (simp add: set_add_def)
  next
    case False
    have "filter (\<lambda>y. y \<noteq> x) (filter (\<lambda>y. y \<notin> set acc) xs)
            = filter (\<lambda>y. y \<notin> set (acc @ [x])) xs"
      by (auto intro: filter_cong)
    with False show ?thesis using Cons.IH [of "acc @ [x]"] by (simp add: set_add_def)
  qed
qed

lemma js_Set_first_seen: "js_Set xs = first_seen xs"
  by (simp add: js_Set_def foldl_set_add)

lemma js_Set_append:
  "js_Set (e @ ts) = first_seen e @ filter (\<lambda>t. t \<notin> set e) (first_seen ts)"
  by (simp add: js_Set_def foldl_set_add set_first_seen first_seen_filter)

lemma js_Set_absorbs:
  assumes "distinct e" and "set ts \<subseteq> set e"
  shows "js_Set (e @ ts) = e"
proof -
  have "filter (\<lambda>t. t \<notin> set e) (first_seen ts) = []"
    using assms(2) by (auto simp: filter_empty_conv set_first_seen)
  with assms(1) show ?thesis by (simp add: js_Set_append first_seen_distinct)
qed

text \<open>The test of the script is inequality of the two lists.\<close>

lemma list_ex_enumerate:
  "list_ex (\<lambda>(i, t). P i t) (enumerate 0 xs) = (\<exists>i < length xs. P i (xs ! i))"
  by (auto simp: list_ex_iff in_set_enumerate_eq)

lemma needUpdate_iff: "needUpdate merged ex = (merged \<noteq> ex)"
  unfolding needUpdate_def list_ex_enumerate js_index_def
  by (auto simp: list_eq_iff_nth_eq)

lemma differs_iff: "differs merged ex = (merged \<noteq> ex)"
  unfolding differs_def by (auto simp: list_eq_iff_nth_eq)

section \<open>The upserter past its guards\<close>

lemma call_trim_url:
  "url h = JStr s \<or> \<not> truthy (url h) \<and> s = [] \<Longrightarrow>
   call_trim (js_or (url h) (JStr [])) = Inr (trim s)"
  by (auto simp: js_or_def trim_def)

lemma upsert_past_guards:
  assumes "call_trim (js_or (url h) (JStr [])) = Inr u" and "u \<noteq> []"
    and "filter (\<lambda>t. t \<noteq> []) (tags h) \<noteq> []"
  shows "upsertUrlWithTags n h =
     (case findPageByUrl n u of
        Inl e \<Rightarrow> ([DatabasesQuery u], Inl e)
      | Inr existing \<Rightarrow>
          (case titleText (book_title h) u of
             Inl e \<Rightarrow> ([DatabasesQuery u], Inl e)
           | Inr t \<Rightarrow>
               (case existing of
                  Some p \<Rightarrow>
                    if js_Set (existingTags p @ filter (\<lambda>t. t \<noteq> []) (tags h)) \<noteq> existingTags p then
                      ([DatabasesQuery u,
                        PagesUpdate (page_id p)
                          ((baseProperties h u t)
                             \<lparr>Tags := Some (js_Set (existingTags p @ filter (\<lambda>t. t \<noteq> []) (tags h)))\<rparr>)],
                       case pages_update n (page_id p)
                          ((baseProperties h u t)
                             \<lparr>Tags := Some (js_Set (existingTags p @ filter (\<lambda>t. t \<noteq> []) (tags h)))\<rparr>) of
                         Inl e \<Rightarrow> Inl e | Inr ok \<Rightarrow> Inr False)
                    else ([DatabasesQuery u], Inr False)
                | None \<Rightarrow>
                    ([DatabasesQuery u,
                      PagesCreate ((baseProperties h u t)\<lparr>Tags := Some (filter (\<lambda>t. t \<noteq> []) (tags h))\<rparr>)],
                     case pages_create n
                        ((baseProperties h u t)\<lparr>Tags := Some (filter (\<lambda>t. t \<noteq> []) (tags h))\<rparr>) of
                       Inl e \<Rightarrow> Inl e
                     | Inr resp \<Rightarrow> Inr (truthy (opt_prop resp ''id''))))))"
  using assms
  by (simp add: upsertUrlWithTags_def Let_def needUpdate_iff split: sum.splits option.splits)

section \<open>The normalizer on well-formed data\<close>











section \<open>The loop of the orchestrator\<close>

lemma upsert_each_keeps:
  "fetches (fst (upsert_each dest hs st)) = fetches st \<and>
   cursor (fst (upsert_each dest hs st)) = cursor st"
proof (induction hs arbitrary: st)
  case Nil
  show ?case by simp
next
  case (Cons h hs)
  show ?case
    by (cases "upsertUrlWithTags (dest (upserts st)) h")
       (auto simp: Let_def Cons split: sum.splits)
qed

lemma upsert_each_keepsD:
  "upsert_each dest hs st = (st', eo) \<Longrightarrow> fetches st' = fetches st \<and> cursor st' = cursor st"
  using upsert_each_keeps [of dest hs st] by simp

lemma main_iteration_fetches:
  "fetches (fst (main_iteration src dest st)) =
     fetches st @ [fst (fetchReadwisePage (src (length (fetches st))) (cursor st))]"
proof -
  obtain q a where f: "fetchReadwisePage (src (length (fetches st))) (cursor st) = (q, a)"
    by (cases "fetchReadwisePage (src (length (fetches st))) (cursor st)")
  show ?thesis
    unfolding main_iteration_def f
    by (auto simp: Let_def split: sum.splits prod.splits option.splits dest: upsert_each_keepsD)
qed

lemma main_iteration_flow:
  assumes "a = snd (fetchReadwisePage (src (length (fetches st))) (cursor st))"
  shows "(snd (main_iteration src dest st) = Continue \<longrightarrow>
            linked_page a \<and>
            cursor (fst (main_iteration src dest st)) =
              (case a of Inl e \<Rightarrow> JNull | Inr page \<Rightarrow> opt_prop page ''nextPageCursor'')) \<and>
         (snd (main_iteration src dest st) = Break \<longrightarrow> last_page a) \<and>
         (last_page a \<longrightarrow> snd (main_iteration src dest st) \<noteq> Continue)"
proof -
  obtain q where f: "fetchReadwisePage (src (length (fetches st))) (cursor st) = (q, a)"
    using assms by (cases "fetchReadwisePage (src (length (fetches st))) (cursor st)") simp
  show ?thesis
    unfolding main_iteration_def f
    by (auto simp: Let_def split: sum.splits prod.splits option.splits)
qed

lemma linked_not_last: "linked_page a \<Longrightarrow> \<not> last_page a"
  by (cases a) auto

lemma main_loop_ends:
  assumes "last_page (page_at src k)"
  shows "on_chain src st \<Longrightarrow> length (fetches st) \<le> k \<Longrightarrow>
         \<exists>r. main_loop src dest st = Some r \<and> followed_chain src k r"
proof (induction "k - length (fetches st)" arbitrary: st)
  case 0
  let ?r = "main_iteration src dest st"
  from 0 have i: "length (fetches st) = k" by simp
  have a: "page_at src k = snd (fetchReadwisePage (src (length (fetches st))) (cursor st))"
    using 0(2) i by (simp add: page_at_def on_chain_def)
  have nc: "snd ?r \<noteq> Continue"
    using main_iteration_flow [where src = src and st = st and dest = dest, OF a] assms by simp
  have br: "snd ?r = Break \<longrightarrow> last_page (page_at src k)"
    using assms by simp
  have f: "fetches (fst ?r) = fetches st @ [request_at src k]"
    using 0(2) i by (simp add: main_iteration_fetches request_at_def on_chain_def)
  have "fetches st = map (request_at src) [0..<k]"
    using 0(2) i by (simp add: on_chain_def)
  with f have m: "fetches (fst ?r) = map (request_at src) [0..<Suc k]"
    by simp
  have l: "\<forall>j. Suc j < Suc k \<longrightarrow> linked_page (page_at src j)"
    using 0(2) i by (simp add: on_chain_def)
  have "followed_chain src k ?r"
    unfolding followed_chain_def using nc br l m by simp
  moreover have "main_loop src dest st = Some ?r"
    using nc by (subst main_loop.simps) (simp add: Let_def)
  ultimately show ?case by blast
next
  case (Suc d)
  let ?r = "main_iteration src dest st"
  let ?i = "length (fetches st)"
  from Suc(2) have i: "?i < k" by simp
  have a: "page_at src ?i = snd (fetchReadwisePage (src ?i) (cursor st))"
    using Suc(3) by (simp add: page_at_def on_chain_def)
  have f: "fetches (fst ?r) = fetches st @ [request_at src ?i]"
    using Suc(3) by (simp add: main_iteration_fetches request_at_def on_chain_def)
  have old: "fetches st = map (request_at src) [0..<?i]"
    using Suc(3) by (simp add: on_chain_def)
  have m: "fetches (fst ?r) = map (request_at src) [0..<Suc ?i]"
    using f old by (metis map_append list.simps(8,9) upt_Suc_append zero_le)
  have len: "length (fetches (fst ?r)) = Suc ?i"
    using f by simp
  have l: "\<forall>j < ?i. linked_page (page_at src j)"
    using Suc(3) by (simp add: on_chain_def)
  show ?case
  proof (cases "snd ?r = Continue")
    case True
    then have lk: "linked_page (page_at src ?i)"
      and c: "cursor (fst ?r) =
          (case page_at src ?i of Inl e \<Rightarrow> JNull | Inr page \<Rightarrow> opt_prop page ''nextPageCursor'')"
      using main_iteration_flow [where src = src and st = st and dest = dest, OF a] by simp_all
    have "cursor (fst ?r) = cursor_at src (Suc ?i)"
      using c by (simp add: page_at_def)
    moreover have "\<forall>j < Suc ?i. linked_page (page_at src j)"
      using l lk by (simp add: less_Suc_eq)
    ultimately have oc: "on_chain src (fst ?r)"
      unfolding on_chain_def len using m len by simp
    have d: "d = k - length (fetches (fst ?r))"
      using Suc(2) len by simp
    have le: "length (fetches (fst ?r)) \<le> k"
      using i len by simp
    from Suc(1) [OF d oc le]
    obtain r where "main_loop src dest (fst ?r) = Some r" and "followed_chain src k r"
      by blast
    moreover have "main_loop src dest st = main_loop src dest (fst ?r)"
      using True by (subst main_loop.simps) (simp add: Let_def)
    ultimately show ?thesis by simp
  next
    case False
    have br: "snd ?r = Break \<longrightarrow> last_page (page_at src ?i)"
      using main_iteration_flow [where src = src and st = st and dest = dest, OF a] by simp
    have l': "\<forall>j. Suc j < Suc ?i \<longrightarrow> linked_page (page_at src j)"
      using l by simp
    have "followed_chain src k ?r"
      unfolding followed_chain_def len using False br l' m i by simp
    moreover have "main_loop src dest st = Some ?r"
      using False by (subst main_loop.simps) (simp add: Let_def)
    ultimately show ?thesis by blast
  qed
qed

lemma request_answered: "src j (request_at src j) = page_at src j"
  by (simp add: request_at_def page_at_def fetchReadwisePage_def Let_def)

lemma request_after_linked:
  assumes "linked_page (page_at src j)"
  shows "\<exists>page. page_at src j = Inr page \<and>
           request_at src (Suc j) = Some (opt_prop page ''nextPageCursor'')"
proof (cases "page_at src j")
  case (Inl e)
  with assms show ?thesis by simp
next
  case (Inr page)
  with assms have "truthy (opt_prop page ''nextPageCursor'')" by simp
  with Inr show ?thesis
    by (simp add: request_at_def page_at_def fetchReadwisePage_def Let_def)
qed

section \<open>Two calls on the destination table\<close>

lemma findPageByUrl_table:
  "findPageByUrl (table_client tbl) u = Inr (find (\<lambda>p. page_url p = Some u) tbl)"
  by (simp add: findPageByUrl_def table_client_def split: option.splits)

lemma table_client_writes:
  "pages_update (table_client tbl) i req = Inr ()"
  "pages_create (table_client tbl) req = Inr (JObj [(''id'', JStr (new_id tbl))])"
  by (simp_all add: table_client_def)

lemma find_appended:
  "find P xs = None \<Longrightarrow> P y \<Longrightarrow> find P (xs @ [y]) = Some y"
  by (induction xs) (auto split: if_splits)

lemma find_after_update:
  assumes "\<And>x. P (g x)"
  shows "find P tbl = Some p \<Longrightarrow>
         \<exists>x. find P (map (\<lambda>x. if page_id x = page_id p then g x else x) tbl) = Some (g x)"
proof (induction tbl)
  case Nil
  then show ?case by simp
next
  case (Cons y ys)
  show ?case
  proof (cases "page_id y = page_id p")
    case True
    then show ?thesis using assms by auto
  next
    case False
    with Cons.prems have "\<not> P y" and "find P ys = Some p"
      by (auto split: if_splits)
    with Cons.IH False show ?thesis by simp
  qed
qed

lemma patched_page:
  assumes "URL req = Some u" and "Tags req = Some ts"
  shows "page_url (patch_page keep req p) = Some u \<and> existingTags (patch_page keep req p) = keep ts"
  using assms by (simp add: page_url_def patch_page_def patch_def existingTags_def)

lemma upsert_twice:
  assumes k: "holds_set keep"
  shows "\<exists>calls res. upsertUrlWithTags (table_client (fst (upsert_on keep tbl h))) h = (calls, res) \<and>
           list_all is_query calls \<and> res \<noteq> Inr True"
proof (cases "call_trim (js_or (url h) (JStr []))")
  case (Inl e)
  then show ?thesis by (simp add: upsertUrlWithTags_def)
next
  case (Inr u)
  let ?tgs = "filter (\<lambda>t. t \<noteq> []) (tags h)"
  let ?P = "\<lambda>p. page_url p = Some u"
  show ?thesis
  proof (cases "u = [] \<or> ?tgs = []")
    case True
    with Inr show ?thesis by (auto simp: upsertUrlWithTags_def Let_def)
  next
    case False
    then have g: "u \<noteq> []" "?tgs \<noteq> []" by simp_all
    note past = upsert_past_guards [OF Inr g]
    show ?thesis
    proof (cases "titleText (book_title h) u")
      case (Inl e)
      then show ?thesis
        by (simp add: past findPageByUrl_table)
    next
      case t: (Inr t)
      have absorbed: "upsertUrlWithTags (table_client tbl') h = ([DatabasesQuery u], Inr False)"
        if "find ?P tbl' = Some p" and "distinct (existingTags p)"
          and "set ?tgs \<subseteq> set (existingTags p)" for tbl' p
      proof -
        have "js_Set (existingTags p @ ?tgs) = existingTags p"
          using that(2,3) by (rule js_Set_absorbs)
        with that(1) show ?thesis
          by (simp add: past findPageByUrl_table t)
      qed
      show ?thesis
      proof (cases "find ?P tbl")
        case None
        let ?req = "(baseProperties h u t)\<lparr>Tags := Some ?tgs\<rparr>"
        let ?new = "patch_page keep ?req \<lparr>page_id = new_id tbl, page_properties = None\<rparr>"
        have 1: "fst (upsert_on keep tbl h) = tbl @ [?new]"
          by (simp add: upsert_on_def past findPageByUrl_table t None table_client_writes)
        have n: "page_url ?new = Some u \<and> existingTags ?new = keep ?tgs"
          by (rule patched_page) (simp_all add: baseProperties_def)
        then have f: "find ?P (tbl @ [?new]) = Some ?new"
          using None by (simp add: find_appended)
        have d: "distinct (existingTags ?new)" and s: "set ?tgs \<subseteq> set (existingTags ?new)"
          using n k by (simp_all add: holds_set_def)
        have "upsertUrlWithTags (table_client (tbl @ [?new])) h
            = ([DatabasesQuery u], Inr False)"
          using f d s by (rule absorbed)
        then show ?thesis by (simp add: 1)
      next
        case (Some p)
        let ?m = "js_Set (existingTags p @ ?tgs)"
        show ?thesis
        proof (cases "?m = existingTags p")
          case True
          then have "upsertUrlWithTags (table_client tbl) h = ([DatabasesQuery u], Inr False)"
            by (simp add: past findPageByUrl_table t Some)
          then show ?thesis by (simp add: upsert_on_def)
        next
          case False
          let ?req = "(baseProperties h u t)\<lparr>Tags := Some ?m\<rparr>"
          let ?tbl1 = "map (\<lambda>x. if page_id x = page_id p then patch_page keep ?req x else x) tbl"
          have 1: "fst (upsert_on keep tbl h) = ?tbl1"
            using False by (simp add: upsert_on_def past findPageByUrl_table t Some table_client_writes)
          have pp: "\<And>x. page_url (patch_page keep ?req x) = Some u \<and>
              existingTags (patch_page keep ?req x) = keep ?m"
            by (rule patched_page) (simp_all add: baseProperties_def)
          then have "\<And>x. ?P (patch_page keep ?req x)"
            by simp
          from find_after_update [of ?P "patch_page keep ?req", OF this Some]
          obtain x where f: "find ?P ?tbl1 = Some (patch_page keep ?req x)"
            by blast
          have "set ?tgs \<subseteq> set ?m"
            by (simp add: js_Set_first_seen set_first_seen)
          then have d: "distinct (existingTags (patch_page keep ?req x))"
            and s: "set ?tgs \<subseteq> set (existingTags (patch_page keep ?req x))"
            using pp k by (simp_all add: holds_set_def)
          have "upsertUrlWithTags (table_client ?tbl1) h = ([DatabasesQuery u], Inr False)"
            using f d s by (rule absorbed)
          then show ?thesis by (simp add: 1)
        qed
      qed
    qed
  qed
qed

section \<open>The upserter: guards, creation, update\<close>

text \<open>
  Claim C2. A highlight whose url is a string that trims to the empty string (or is
  missing), or whose tags are all empty, is skipped: the call returns \<^verbatim>\<open>false\<close> and sends
  no request at all, whatever the destination would answer; in particular no query.
\<close>

theorem upsert_skips_without_url_or_tags:
  assumes "url h = JStr s \<or> \<not> truthy (url h) \<and> s = []"
    and "trim s = [] \<or> filter (\<lambda>t. t \<noteq> []) (tags h) = []"
  shows "upsertUrlWithTags n h = ([], Inr False)"
proof -
  have "call_trim (js_or (url h) (JStr [])) = Inr (trim s)"
    using assms(1) by (rule call_trim_url)
  with assms(2) show ?thesis
    by (auto simp: upsertUrlWithTags_def Let_def)
qed

theorem upsert_skips_without_url_or_tags_witness:
  "upsertUrlWithTags (answering [page_t1])
     (highlight_t1\<lparr>url := JStr [0x0020, 0x00A0, 0x2003, 0x2028, 0xFEFF, 0x0009]\<rparr>) = ([], Inr False) \<and>
   upsertUrlWithTags (answering [page_t1]) (highlight_t1\<lparr>tags := [[]]\<rparr>) = ([], Inr False)"
proof -
  let ?s = "[0x0020, 0x00A0, 0x2003, 0x2028, 0xFEFF, 0x0009] :: js_string"
  have u1: "url (highlight_t1\<lparr>url := JStr ?s\<rparr>) = JStr ?s \<or>
      \<not> truthy (url (highlight_t1\<lparr>url := JStr ?s\<rparr>)) \<and> ?s = []"
    by simp
  have g1: "trim ?s = [] \<or>
      filter (\<lambda>t. t \<noteq> []) (tags (highlight_t1\<lparr>url := JStr ?s\<rparr>)) = []"
    by (simp add: trim_def js_whitespace_def)
  have u2: "url (highlight_t1\<lparr>tags := [[]]\<rparr>) = JStr (lit ''https://x.com'') \<or>
      \<not> truthy (url (highlight_t1\<lparr>tags := [[]]\<rparr>)) \<and> (lit ''https://x.com'') = []"
    by (simp add: highlight_t1_def)
  have g2: "trim (lit ''https://x.com'') = [] \<or>
      filter (\<lambda>t. t \<noteq> []) (tags (highlight_t1\<lparr>tags := [[]]\<rparr>)) = []"
    by simp
  show ?thesis
    using upsert_skips_without_url_or_tags [OF u1 g1] upsert_skips_without_url_or_tags [OF u2 g2]
    by simp
qed

text \<open>
  Claim C4. Past the two guards, when the query finds no page of the url, the call sends
  the query and then one creation, whose properties are the base properties with the
  incoming tags as filtered, neither merged nor deduplicated. When the creation is
  answered, the call returns whether the answer has a truthy \<^verbatim>\<open>id\<close>; when it is rejected,
  the call raises.
\<close>

theorem upsert_creates_when_absent:
  assumes "call_trim (js_or (url h) (JStr [])) = Inr u" and "u \<noteq> []"
    and "tgs = filter (\<lambda>t. t \<noteq> []) (tags h)" and "tgs \<noteq> []"
    and "findPageByUrl n u = Inr None"
    and "titleText (book_title h) u = Inr t"
    and "req = (baseProperties h u t)\<lparr>Tags := Some tgs\<rparr>"
  shows "fst (upsertUrlWithTags n h) = [DatabasesQuery u, PagesCreate req] \<and>
         snd (upsertUrlWithTags n h) =
           (case pages_create n req of
              Inl e \<Rightarrow> Inl e
            | Inr resp \<Rightarrow> Inr (truthy (opt_prop resp ''id'')))"
  using assms by (simp add: upsert_past_guards)

theorem upsert_creates_when_absent_witness:
  "upsertUrlWithTags (answering []) highlight_t1 =
     ([DatabasesQuery (lit ''https://x.com''),
       PagesCreate \<lparr> Title = Some (lit ''Book A''), URL = Some (lit ''https://x.com''), Source = None,
                     Book = Some (JStr (lit ''Book A'')), Author = None, Tags = Some [lit ''t1''] \<rparr>],
      Inr True)"
proof -
  have 1: "call_trim (js_or (url highlight_t1) (JStr [])) = Inr (lit ''https://x.com'')"
    by (simp add: highlight_t1_def js_or_def trim_scenario)
  have 2: "(lit ''https://x.com'') \<noteq> []"
    by simp
  have 4: "filter (\<lambda>t. t \<noteq> []) (tags highlight_t1) \<noteq> []"
    by (simp add: highlight_t1_def)
  have 5: "findPageByUrl (answering []) (lit ''https://x.com'') = Inr None"
    by (simp add: findPageByUrl_def answering_def)
  have 6: "titleText (book_title highlight_t1) (lit ''https://x.com'') = Inr (lit ''Book A'')"
    by (simp add: highlight_t1_def titleText_def opt_call_trim_def js_or_def trim_scenario)
  show ?thesis
    using upsert_creates_when_absent [OF 1 2 refl 4 5 6 refl]
    by (simp add: prod_eq_iff highlight_t1_def answering_def baseProperties_def rich_text_if_def
        opt_prop_def)
qed

text \<open>
  Claim C10. Past the two guards, when the query finds a page and the merged tags are,
  position by position, the tags the page has, the call sends the query and nothing else:
  no update, whatever title, author or category the highlight carries. It returns
  \<^verbatim>\<open>false\<close> (or raises, once the query is sent, when the title is not a string).
\<close>

theorem upsert_equal_merge_sends_no_update:
  assumes "call_trim (js_or (url h) (JStr [])) = Inr u" and "u \<noteq> []"
    and "tgs = filter (\<lambda>t. t \<noteq> []) (tags h)" and "tgs \<noteq> []"
    and "findPageByUrl n u = Inr (Some p)"
    and "js_Set (existingTags p @ tgs) = existingTags p"
  shows "fst (upsertUrlWithTags n h) = [DatabasesQuery u] \<and>
         snd (upsertUrlWithTags n h) =
           (case titleText (book_title h) u of Inl e \<Rightarrow> Inl e | Inr t \<Rightarrow> Inr False)"
  using assms by (simp add: upsert_past_guards split: sum.splits)

theorem upsert_equal_merge_sends_no_update_witness:
  "upsertUrlWithTags (answering [page_t1])
     (highlight_t1\<lparr>book_title := JStr (lit ''Book B''), book_author := JStr (lit ''B. Author''),
                    category := JStr (lit ''articles'')\<rparr>) =
   ([DatabasesQuery (lit ''https://x.com'')], Inr False)"
proof -
  let ?h = "highlight_t1\<lparr>book_title := JStr (lit ''Book B''), book_author := JStr (lit ''B. Author''),
                    category := JStr (lit ''articles'')\<rparr>"
  have 1: "call_trim (js_or (url ?h) (JStr [])) = Inr (lit ''https://x.com'')"
    by (simp add: highlight_t1_def js_or_def trim_scenario)
  have 2: "(lit ''https://x.com'') \<noteq> []"
    by simp
  have 4: "filter (\<lambda>t. t \<noteq> []) (tags ?h) \<noteq> []"
    by (simp add: highlight_t1_def)
  have 5: "findPageByUrl (answering [page_t1]) (lit ''https://x.com'') = Inr (Some page_t1)"
    by (simp add: findPageByUrl_def answering_def)
  have 6: "js_Set (existingTags page_t1 @ filter (\<lambda>t. t \<noteq> []) (tags ?h)) = existingTags page_t1"
    by (simp add: highlight_t1_def page_t1_def existingTags_def js_Set_def set_add_def)
  show ?thesis
    using upsert_equal_merge_sends_no_update [OF 1 2 refl 4 5 6]
    by (simp add: prod_eq_iff titleText_def opt_call_trim_def js_or_def trim_scenario)
qed

text \<open>
  Claim C9. When the tags of the existing page are duplicate-free, the test of the script
  (the lengths differ, or some position of the merged list differs from the same position
  of the existing one) holds exactly when some incoming tag is not among the existing
  ones; the existing list is a prefix of the merged one; and the positional half of the
  test never holds unless the lengths differ too.
\<close>

theorem needUpdate_iff_new_tag:
  assumes "distinct ex"
  shows "needUpdate (js_Set (ex @ tgs)) ex = (\<exists>t \<in> set tgs. t \<notin> set ex) \<and>
         prefix ex (js_Set (ex @ tgs)) \<and>
         (list_ex (\<lambda>(i, t). Some t \<noteq> js_index ex i) (enumerate 0 (js_Set (ex @ tgs)))
            \<longrightarrow> length (js_Set (ex @ tgs)) \<noteq> length ex)"
proof -
  have m: "js_Set (ex @ tgs) = ex @ filter (\<lambda>t. t \<notin> set ex) (first_seen tgs)"
    using assms by (simp add: js_Set_append first_seen_distinct)
  have e: "(filter (\<lambda>t. t \<notin> set ex) (first_seen tgs) \<noteq> []) = (\<exists>t \<in> set tgs. t \<notin> set ex)"
    by (auto simp: filter_empty_conv set_first_seen)
  have 1: "needUpdate (js_Set (ex @ tgs)) ex = (\<exists>t \<in> set tgs. t \<notin> set ex)"
    using e by (simp add: needUpdate_iff m)
  have 2: "prefix ex (js_Set (ex @ tgs))"
    by (simp add: m)
  have 3: "list_ex (\<lambda>(i, t). Some t \<noteq> js_index ex i) (enumerate 0 (js_Set (ex @ tgs)))
            \<longrightarrow> length (js_Set (ex @ tgs)) \<noteq> length ex"
  proof
    assume "list_ex (\<lambda>(i, t). Some t \<noteq> js_index ex i) (enumerate 0 (js_Set (ex @ tgs)))"
    then have "needUpdate (js_Set (ex @ tgs)) ex"
      by (simp add: needUpdate_def)
    then have "filter (\<lambda>t. t \<notin> set ex) (first_seen tgs) \<noteq> []"
      using 1 e by simp
    then show "length (js_Set (ex @ tgs)) \<noteq> length ex"
      by (simp add: m)
  qed
  from 1 2 3 show ?thesis by blast
qed

theorem needUpdate_iff_new_tag_witness:
  "distinct [lit ''t1'', lit ''t0''] \<and>
   needUpdate (js_Set ([lit ''t1'', lit ''t0''] @ [lit ''t1'', lit ''t2''])) [lit ''t1'', lit ''t0''] \<and>
   \<not> needUpdate (js_Set ([lit ''t1'', lit ''t0''] @ [lit ''t0'', lit ''t1''])) [lit ''t1'', lit ''t0''] \<and>
   prefix [lit ''t1'', lit ''t0''] (js_Set ([lit ''t1'', lit ''t0''] @ [lit ''t1'', lit ''t2'']))"
proof -
  have d: "distinct [lit ''t1'', lit ''t0'']"
    by simp
  show ?thesis
    using d needUpdate_iff_new_tag [OF d, of "[lit ''t1'', lit ''t2'']"]
      needUpdate_iff_new_tag [OF d, of "[lit ''t0'', lit ''t1'']"]
    by simp
qed

text \<open>
  Claim C1. Past the two guards, when the query finds a page, let the existing tags be
  the tags stored on that page (none when the page carries no properties or no tags).
  The merged tags are the existing tags and the incoming ones, each once, in first-seen
  order: the existing tags first, then the incoming tags that are not among them (when
  the existing tags are duplicate-free, the existing list itself comes first). The call
  sends the query, and one update of the page found, carrying the base properties and the
  merged tags, exactly when the merged list differs from the existing one in length or in
  some position. It never returns \<^verbatim>\<open>true\<close>: it returns \<^verbatim>\<open>false\<close> whether or not it sent the
  update, and raises when the update is rejected.
\<close>

theorem upsert_existing_merges_tags:
  assumes "call_trim (js_or (url h) (JStr [])) = Inr u" and "u \<noteq> []"
    and "tgs = filter (\<lambda>t. t \<noteq> []) (tags h)" and "tgs \<noteq> []"
    and "findPageByUrl n u = Inr (Some p)"
    and "titleText (book_title h) u = Inr t"
    and "ex = (case page_properties p of
                 None \<Rightarrow> []
               | Some ps \<Rightarrow> (case Tags ps of None \<Rightarrow> [] | Some ts \<Rightarrow> ts))"
    and "merged = first_seen ex @ filter (\<lambda>x. x \<notin> set ex) (first_seen tgs)"
    and "req = (baseProperties h u t)\<lparr>Tags := Some merged\<rparr>"
  shows "upsertUrlWithTags n h =
           (if differs merged ex
            then ([DatabasesQuery u, PagesUpdate (page_id p) req],
                  case pages_update n (page_id p) req of Inl e \<Rightarrow> Inl e | Inr ok \<Rightarrow> Inr False)
            else ([DatabasesQuery u], Inr False)) \<and>
         snd (upsertUrlWithTags n h) \<noteq> Inr True \<and>
         distinct merged \<and> set merged = set ex \<union> set tgs \<and>
         (distinct ex \<longrightarrow> merged = ex @ filter (\<lambda>x. x \<notin> set ex) (first_seen tgs))"
proof -
  have e: "existingTags p = ex"
    using assms(7) by (simp add: existingTags_def)
  have m: "js_Set (ex @ filter (\<lambda>t. t \<noteq> []) (tags h)) = merged"
    using assms(3,8) by (simp add: js_Set_append)
  have u: "upsertUrlWithTags n h =
           (if differs merged ex
            then ([DatabasesQuery u, PagesUpdate (page_id p) req],
                  case pages_update n (page_id p) req of Inl e \<Rightarrow> Inl e | Inr ok \<Rightarrow> Inr False)
            else ([DatabasesQuery u], Inr False))"
    using assms(1-6,9) e by (simp add: upsert_past_guards m differs_iff)
  have r: "snd (upsertUrlWithTags n h) \<noteq> Inr True"
    unfolding u by (simp split: sum.splits)
  have d: "distinct merged"
    unfolding m [symmetric] by (simp add: js_Set_first_seen distinct_first_seen)
  have s: "set merged = set ex \<union> set tgs"
    using assms(8) by (auto simp: set_first_seen)
  have "distinct ex \<longrightarrow> merged = ex @ filter (\<lambda>x. x \<notin> set ex) (first_seen tgs)"
    using assms(8) by (simp add: first_seen_distinct)
  with u r d s show ?thesis by blast
qed

theorem upsert_existing_merges_tags_witness:
  "upsertUrlWithTags (answering [page_t0_t1])
     (highlight_t1\<lparr>tags := [lit ''t1'', lit ''t2'', lit ''t1'']\<rparr>) =
     ([DatabasesQuery (lit ''https://x.com''),
       PagesUpdate (lit ''p1'')
         \<lparr> Title = Some (lit ''Book A''), URL = Some (lit ''https://x.com''), Source = None,
           Book = Some (JStr (lit ''Book A'')), Author = None,
           Tags = Some [lit ''t0'', lit ''t1'', lit ''t2''] \<rparr>],
      Inr False) \<and>
   upsertUrlWithTags (answering [\<lparr>page_id = lit ''p3'', page_properties = None\<rparr>]) highlight_t1 =
     ([DatabasesQuery (lit ''https://x.com''),
       PagesUpdate (lit ''p3'')
         \<lparr> Title = Some (lit ''Book A''), URL = Some (lit ''https://x.com''), Source = None,
           Book = Some (JStr (lit ''Book A'')), Author = None, Tags = Some [lit ''t1''] \<rparr>],
      Inr False)"
proof -
  let ?h = "highlight_t1\<lparr>tags := [lit ''t1'', lit ''t2'', lit ''t1'']\<rparr>"
  let ?bare = "\<lparr>page_id = lit ''p3'', page_properties = None\<rparr>"
  have 1: "call_trim (js_or (url ?h) (JStr [])) = Inr (lit ''https://x.com'')"
    by (simp add: highlight_t1_def js_or_def trim_scenario)
  have 2: "lit ''https://x.com'' \<noteq> []"
    by simp
  have 4: "filter (\<lambda>t. t \<noteq> []) (tags ?h) \<noteq> []"
    by simp
  have 5: "findPageByUrl (answering [page_t0_t1]) (lit ''https://x.com'') = Inr (Some page_t0_t1)"
    by (simp add: findPageByUrl_def answering_def)
  have 6: "titleText (book_title ?h) (lit ''https://x.com'') = Inr (lit ''Book A'')"
    by (simp add: highlight_t1_def titleText_def opt_call_trim_def js_or_def trim_scenario)
  have a: "upsertUrlWithTags (answering [page_t0_t1]) ?h =
     ([DatabasesQuery (lit ''https://x.com''),
       PagesUpdate (lit ''p1'')
         \<lparr> Title = Some (lit ''Book A''), URL = Some (lit ''https://x.com''), Source = None,
           Book = Some (JStr (lit ''Book A'')), Author = None,
           Tags = Some [lit ''t0'', lit ''t1'', lit ''t2''] \<rparr>],
      Inr False)"
    using upsert_existing_merges_tags [OF 1 2 refl 4 5 6 refl refl refl]
    by (simp add: highlight_t1_def page_t0_t1_def answering_def differs_def baseProperties_def
        rich_text_if_def)
  have b1: "call_trim (js_or (url highlight_t1) (JStr [])) = Inr (lit ''https://x.com'')"
    by (simp add: highlight_t1_def js_or_def trim_scenario)
  have b4: "filter (\<lambda>t. t \<noteq> []) (tags highlight_t1) \<noteq> []"
    by (simp add: highlight_t1_def)
  have b5: "findPageByUrl (answering [?bare]) (lit ''https://x.com'') = Inr (Some ?bare)"
    by (simp add: findPageByUrl_def answering_def)
  have b6: "titleText (book_title highlight_t1) (lit ''https://x.com'') = Inr (lit ''Book A'')"
    by (simp add: highlight_t1_def titleText_def opt_call_trim_def js_or_def trim_scenario)
  have b: "upsertUrlWithTags (answering [?bare]) highlight_t1 =
     ([DatabasesQuery (lit ''https://x.com''),
       PagesUpdate (lit ''p3'')
         \<lparr> Title = Some (lit ''Book A''), URL = Some (lit ''https://x.com''), Source = None,
           Book = Some (JStr (lit ''Book A'')), Author = None, Tags = Some [lit ''t1''] \<rparr>],
      Inr False)"
    using upsert_existing_merges_tags [OF b1 2 refl b4 b5 b6 refl refl refl]
    by (simp add: highlight_t1_def answering_def differs_def baseProperties_def
        rich_text_if_def)
  from a b show ?thesis ..
qed

text \<open>
  Claim C5. Whatever creation or update a call sends for a highlight whose url, book
  title, category and author are strings, its properties have: as \<open>Title\<close> the trimmed
  book title, or the trimmed url when that is empty; as \<open>URL\<close> the trimmed url; and
  \<open>Source\<close>, \<open>Book\<close> and \<open>Author\<close> holding the category, the book title and the author
  when these are non-empty, and left out of the request when they are empty.
\<close>

theorem base_properties_sent:
  assumes "url h = JStr s" and "book_title h = JStr bt"
    and "category h = JStr c" and "book_author h = JStr a"
    and "PagesCreate req \<in> set (fst (upsertUrlWithTags n h)) \<or>
         PagesUpdate pid req \<in> set (fst (upsertUrlWithTags n h))"
  shows "Title req = Some (if trim bt = [] then trim s else trim bt) \<and>
         URL req = Some (trim s) \<and>
         Source req = (if c = [] then None else Some (JStr c)) \<and>
         Book req = (if bt = [] then None else Some (JStr bt)) \<and>
         Author req = (if a = [] then None else Some (JStr a))"
proof -
  let ?t = "if trim bt = [] then trim s else trim bt"
  have ct: "call_trim (js_or (url h) (JStr [])) = Inr (trim s)"
    using call_trim_url [of h s] assms(1) by blast
  have tt: "titleText (book_title h) (trim s) = Inr ?t"
    using assms(2) by (simp add: titleText_def opt_call_trim_def js_or_def)
  have g: "trim s \<noteq> []" "filter (\<lambda>t. t \<noteq> []) (tags h) \<noteq> []"
    using assms(5) ct by (auto simp: upsertUrlWithTags_def Let_def split: if_splits)
  have "\<exists>ts. req = (baseProperties h (trim s) ?t)\<lparr>Tags := Some ts\<rparr>"
    using assms(5) unfolding upsert_past_guards [OF ct g] tt
    by (auto split: sum.splits option.splits if_splits)
  then obtain ts where r: "req = (baseProperties h (trim s) ?t)\<lparr>Tags := Some ts\<rparr>" ..
  show ?thesis
    unfolding r using assms(2,3,4) by (simp add: baseProperties_def rich_text_if_def)
qed

theorem base_properties_sent_witness:
  "PagesCreate \<lparr> Title = Some (lit ''https://x.com''), URL = Some (lit ''https://x.com''),
       Source = Some (JStr (lit ''articles'')), Book = Some (JStr [0x00A0, 0x2003]),
       Author = None, Tags = Some [lit ''t1''] \<rparr>
     \<in> set (fst (upsertUrlWithTags (answering [])
                  (highlight_t1\<lparr>book_title := JStr [0x00A0, 0x2003],
                                 category := JStr (lit ''articles''),
                                 url := JStr (0x3000 # lit ''https://x.com'' @ [0xFEFF, 0x2029])\<rparr>))) \<and>
   trim [0x00A0, 0x2003] = [] \<and>
   trim (0x3000 # lit ''https://x.com'' @ [0xFEFF, 0x2029]) = lit ''https://x.com''"
proof -
  let ?bt = "[0x00A0, 0x2003] :: js_string"
  let ?s = "0x3000 # lit ''https://x.com'' @ [0xFEFF, 0x2029]"
  let ?h = "highlight_t1\<lparr>book_title := JStr ?bt, category := JStr (lit ''articles''),
                         url := JStr ?s\<rparr>"
  let ?req = "\<lparr> Title = Some (lit ''https://x.com''), URL = Some (lit ''https://x.com''),
       Source = Some (JStr (lit ''articles'')), Book = Some (JStr ?bt), Author = None,
       Tags = Some [lit ''t1''] \<rparr>"
  have tb: "trim ?bt = []"
    by (simp add: trim_def js_whitespace_def)
  have ts: "trim ?s = lit ''https://x.com''"
    by (simp add: trim_def js_whitespace_def lit_simps)
  have 1: "url ?h = JStr ?s"
    by simp
  have 2: "book_title ?h = JStr ?bt"
    by simp
  have 3: "category ?h = JStr (lit ''articles'')"
    by simp
  have 4: "book_author ?h = JStr []"
    by (simp add: highlight_t1_def)
  have ct: "call_trim (js_or (url ?h) (JStr [])) = Inr (lit ''https://x.com'')"
    by (simp add: js_or_def ts)
  have tt: "titleText (book_title ?h) (lit ''https://x.com'') = Inr (lit ''https://x.com'')"
    by (simp add: titleText_def opt_call_trim_def js_or_def tb)
  have g: "lit ''https://x.com'' \<noteq> []" "filter (\<lambda>t. t \<noteq> []) (tags ?h) \<noteq> []"
    by (simp_all add: highlight_t1_def)
  have c: "PagesCreate ?req \<in> set (fst (upsertUrlWithTags (answering []) ?h))"
    unfolding upsert_past_guards [OF ct g] tt
    by (simp add: findPageByUrl_def answering_def baseProperties_def rich_text_if_def
        highlight_t1_def)
  then have 5: "PagesCreate ?req \<in> set (fst (upsertUrlWithTags (answering []) ?h)) \<or>
        PagesUpdate (lit ''p1'') ?req \<in> set (fst (upsertUrlWithTags (answering []) ?h))"
    by (rule disjI1)
  have "Title ?req = Some (if trim ?bt = [] then trim ?s else trim ?bt) \<and> URL ?req = Some (trim ?s)"
    using base_properties_sent [OF 1 2 3 4 5] by simp
  with c tb ts show ?thesis by simp
qed

section \<open>The normalizer: one record for every raw highlight\<close>





section \<open>The orchestrator: pagination\<close>

text \<open>
  Claim C8. If some request of the chain is answered with a page whose
  \<^verbatim>\<open>nextPageCursor\<close> is falsy, say the \<open>k\<close>-th, the run of \<^verbatim>\<open>main\<close> ends, after at least one
  and at most \<open>k + 1\<close> requests to the source, whatever the destination answers. The
  first request has no \<^verbatim>\<open>pageCursor\<close>; every later request carries the \<^verbatim>\<open>nextPageCursor\<close> of
  the page the request before it was answered with. When no earlier page of the chain is
  a last page and the run ends by leaving the loop (not by an error), it has sent exactly
  \<open>k + 1\<close> requests: two for two pages linked by a cursor.
\<close>

theorem main_ends_following_cursors:
  assumes "last_page (page_at src k)"
  shows "\<exists>st fl. main src dest = Some (st, fl) \<and> fl \<noteq> Continue \<and>
           0 < length (fetches st) \<and> length (fetches st) \<le> Suc k \<and>
           fetches st ! 0 = None \<and>
           (\<forall>j. Suc j < length (fetches st) \<longrightarrow>
              (\<exists>page. src j (fetches st ! j) = Inr page \<and>
                      fetches st ! Suc j = Some (opt_prop page ''nextPageCursor''))) \<and>
           ((\<forall>j < k. \<not> last_page (page_at src j)) \<longrightarrow> fl = Break \<longrightarrow>
              length (fetches st) = Suc k)"
proof -
  let ?st0 = "\<lparr> cursor = JNull, totalFetched = 0, totalCreated = 0,
         fetches = [], requests = [], upserts = 0 \<rparr>"
  have "on_chain src ?st0"
    by (simp add: on_chain_def)
  moreover have "length (fetches ?st0) \<le> k"
    by simp
  ultimately obtain r where r: "main_loop src dest ?st0 = Some r" and fc: "followed_chain src k r"
    using main_loop_ends [OF assms] by blast
  obtain st fl where p: "r = (st, fl)"
    by (cases r)
  let ?n = "length (fetches st)"
  from fc p have nc: "fl \<noteq> Continue"
    and m: "fetches st = map (request_at src) [0..<?n]"
    and pos: "0 < ?n" and le: "?n \<le> Suc k"
    and lk: "\<forall>j. Suc j < ?n \<longrightarrow> linked_page (page_at src j)"
    and br: "fl = Break \<longrightarrow> last_page (page_at src (?n - 1))"
    by (simp_all add: followed_chain_def)
  have nth: "\<And>j. j < ?n \<Longrightarrow> fetches st ! j = request_at src j"
  proof -
    fix j assume "j < ?n"
    then have "map (request_at src) [0..<?n] ! j = request_at src j"
      by simp
    with m show "fetches st ! j = request_at src j" by simp
  qed
  have first: "fetches st ! 0 = None"
    using nth [OF pos] by (simp add: request_at_def fetchReadwisePage_def)
  have succ: "\<forall>j. Suc j < ?n \<longrightarrow>
              (\<exists>page. src j (fetches st ! j) = Inr page \<and>
                      fetches st ! Suc j = Some (opt_prop page ''nextPageCursor''))"
  proof (intro allI impI)
    fix j assume j: "Suc j < ?n"
    then have "linked_page (page_at src j)"
      using lk by simp
    then obtain page where "page_at src j = Inr page"
      and "request_at src (Suc j) = Some (opt_prop page ''nextPageCursor'')"
      using request_after_linked by blast
    moreover have "fetches st ! j = request_at src j" "fetches st ! Suc j = request_at src (Suc j)"
      using j by (simp_all add: nth)
    ultimately show "\<exists>page. src j (fetches st ! j) = Inr page \<and>
                      fetches st ! Suc j = Some (opt_prop page ''nextPageCursor'')"
      by (simp add: request_answered)
  qed
  have least: "(\<forall>j < k. \<not> last_page (page_at src j)) \<longrightarrow> fl = Break \<longrightarrow> ?n = Suc k"
  proof (intro impI)
    assume a: "\<forall>j < k. \<not> last_page (page_at src j)" and "fl = Break"
    with br have "last_page (page_at src (?n - 1))" by simp
    with a have "\<not> ?n - 1 < k" by blast
    with pos le show "?n = Suc k" by arith
  qed
  from r p have "main src dest = Some (st, fl)"
    by (simp add: main_def)
  with nc pos le first succ least show ?thesis by blast
qed

theorem main_ends_following_cursors_witness:
  "last_page (page_at two_pages 1) \<and>
   (\<exists>st. main two_pages (\<lambda>k. answering []) = Some (st, Break) \<and>
         fetches st = [None, Some (JStr (lit ''c1''))] \<and>
         totalFetched st = 1 \<and> totalCreated st = 1)"
proof -
  let ?dest = "\<lambda>k::nat. answering []"
  let ?st0 = "\<lparr> cursor = JNull, totalFetched = 0, totalCreated = 0,
         fetches = [], requests = [], upserts = 0 \<rparr>"
  let ?req = "\<lparr> Title = Some (lit ''Book A''), URL = Some (lit ''https://x.com''), Source = None,
           Book = Some (JStr (lit ''Book A'')), Author = None, Tags = Some [lit ''t1''] \<rparr>"
  let ?st1 = "\<lparr> cursor = JStr (lit ''c1''), totalFetched = Suc 0, totalCreated = Suc 0,
         fetches = [None],
         requests = [DatabasesQuery (lit ''https://x.com''), PagesCreate ?req], upserts = Suc 0 \<rparr>"
  let ?st2 = "\<lparr> cursor = JStr (lit ''c1''), totalFetched = Suc 0, totalCreated = Suc 0,
         fetches = [None, Some (JStr (lit ''c1''))],
         requests = [DatabasesQuery (lit ''https://x.com''), PagesCreate ?req], upserts = Suc 0 \<rparr>"
  have n: "normalizeHighlights (JArr [book_A]) = Inr [highlight_t1]"
    by (simp add: normalizeHighlights_def book_A_def highlight_t1_def normalize_highlight_def
        meta_of_def opt_prop_def js_or_def js_coalesce_def Let_def)
  have u: "upsertUrlWithTags (answering []) highlight_t1 =
      ([DatabasesQuery (lit ''https://x.com''), PagesCreate ?req], Inr True)"
    by (simp add: upsertUrlWithTags_def highlight_t1_def answering_def findPageByUrl_def
        titleText_def opt_call_trim_def js_or_def trim_scenario baseProperties_def
        rich_text_if_def opt_prop_def Let_def)
  have 1: "main_iteration two_pages ?dest ?st0 = (?st1, Continue)"
    by (simp add: main_iteration_def fetchReadwisePage_def two_pages_def first_of_two_def
        n u opt_prop_def Let_def)
  have 2: "main_iteration two_pages ?dest ?st1 = (?st2, Break)"
    by (simp add: main_iteration_def fetchReadwisePage_def two_pages_def second_of_two_def
        normalizeHighlights_def js_or_def opt_prop_def Let_def)
  have "main_loop two_pages ?dest ?st0 = main_loop two_pages ?dest ?st1"
    by (subst main_loop.simps) (simp add: 1 Let_def)
  also have "\<dots> = Some (?st2, Break)"
    by (subst main_loop.simps) (simp add: 2 Let_def)
  finally have run: "main two_pages ?dest = Some (?st2, Break)"
    by (simp add: main_def)
  have h: "last_page (page_at two_pages 1)"
    by (simp add: page_at_def fetchReadwisePage_def two_pages_def first_of_two_def
        second_of_two_def opt_prop_def Let_def)
  show ?thesis
    using h run main_ends_following_cursors [OF h, of ?dest]
    by simp
qed

section \<open>The upserter: idempotence\<close>

text \<open>
  Claim C3. On a destination table whose multi-select holds a set, with nobody else
  writing to it, a second call of \<^verbatim>\<open>upsertUrlWithTags\<close> with the same highlight, right after
  the first, sends no creation and no update (nothing but the query), does not return
  \<^verbatim>\<open>true\<close>, and leaves the table as the first call left it: no record and no tag is
  added a second time.
\<close>

theorem upsert_twice_idempotent:
  assumes "holds_set keep"
    and "upsert_on keep tbl h = (tbl1, calls1, res1)"
  shows "\<exists>calls2 res2. upsert_on keep tbl1 h = (tbl1, calls2, res2) \<and>
           list_all is_query calls2 \<and> res2 \<noteq> Inr True"
proof -
  from upsert_twice [OF assms(1), of tbl h] assms(2)
  obtain calls res where u: "upsertUrlWithTags (table_client tbl1) h = (calls, res)"
    and q: "list_all is_query calls" and r: "res \<noteq> Inr True"
    by auto
  have "foldl (table_apply keep) tbl1 calls = tbl1"
    using q by (induction calls) (auto elim: is_query.elims)
  with u q r show ?thesis
    by (simp add: upsert_on_def)
qed

theorem upsert_twice_idempotent_witness:
  "holds_set first_seen \<and>
   (\<exists>tbl1. upsert_on first_seen [] (highlight_t1\<lparr>tags := [lit ''t1'', lit ''t1'']\<rparr>) =
             (tbl1,
              [DatabasesQuery (lit ''https://x.com''),
               PagesCreate
                 \<lparr> Title = Some (lit ''Book A''), URL = Some (lit ''https://x.com''), Source = None,
                   Book = Some (JStr (lit ''Book A'')), Author = None, Tags = Some [lit ''t1'', lit ''t1''] \<rparr>],
              Inr True) \<and>
           map existingTags tbl1 = [[lit ''t1'']] \<and>
           upsert_on first_seen tbl1 (highlight_t1\<lparr>tags := [lit ''t1'', lit ''t1'']\<rparr>) =
             (tbl1, [DatabasesQuery (lit ''https://x.com'')], Inr False))"
proof -
  let ?h = "highlight_t1\<lparr>tags := [lit ''t1'', lit ''t1'']\<rparr>"
  let ?req = "\<lparr> Title = Some (lit ''Book A''), URL = Some (lit ''https://x.com''), Source = None,
                   Book = Some (JStr (lit ''Book A'')), Author = None, Tags = Some [lit ''t1'', lit ''t1''] \<rparr>"
  let ?tbl1 = "[\<lparr> page_id = lit ''p0'',
                  page_properties =
                    Some \<lparr> Title = Some (lit ''Book A''), URL = Some (lit ''https://x.com''), Source = None,
                           Book = Some (JStr (lit ''Book A'')), Author = None,
                           Tags = Some [lit ''t1''] \<rparr> \<rparr>]"
  have k: "holds_set first_seen"
    by (simp add: holds_set_def distinct_first_seen set_first_seen)
  have u1: "upsertUrlWithTags (table_client []) ?h =
      ([DatabasesQuery (lit ''https://x.com''), PagesCreate ?req], Inr True)"
    by (simp add: upsertUrlWithTags_def highlight_t1_def
        table_client_def page_url_def findPageByUrl_def titleText_def opt_call_trim_def js_or_def
        trim_scenario baseProperties_def rich_text_if_def opt_prop_def new_id_def
        Let_def)
  have 1: "upsert_on first_seen [] ?h =
      (?tbl1, [DatabasesQuery (lit ''https://x.com''), PagesCreate ?req], Inr True)"
    by (simp add: upsert_on_def u1)
      (simp add: patch_page_def patch_def no_properties_def new_id_def nat_string.simps
        digit_char_def)
  have u2: "upsertUrlWithTags (table_client ?tbl1) ?h =
      ([DatabasesQuery (lit ''https://x.com'')], Inr False)"
    by (simp add: upsertUrlWithTags_def highlight_t1_def
        table_client_def page_url_def findPageByUrl_def titleText_def opt_call_trim_def js_or_def
        trim_scenario baseProperties_def rich_text_if_def existingTags_def
        js_Set_def set_add_def needUpdate_def js_index_def Let_def)
  have 2: "upsert_on first_seen ?tbl1 ?h = (?tbl1, [DatabasesQuery (lit ''https://x.com'')], Inr False)"
    by (simp add: upsert_on_def u2)
  show ?thesis
    using k 1 2 upsert_twice_idempotent [OF k 1]
    by (simp add: existingTags_def)
qed

end
